theory Spec2Isabelle
  imports Main "HOL-Library.Sublist" "HOL-Library.Multiset"
begin

section \<open>JavaScript string primitives\<close>

text \<open>
  Strings are lists of code units restricted to the range 0..255. On that range the
  characters matched by the regular-expression class \<open>\s\<close>, which are also the characters
  removed by \<open>String.prototype.trim\<close>, are TAB, LF, VT, FF, CR, SPACE and NBSP.
\<close>

definition isWhiteSpace :: "char \<Rightarrow> bool" where
  "isWhiteSpace c =
     (c = CHR 0x09 \<or> c = CHR 0x0A \<or> c = CHR 0x0B \<or> c = CHR 0x0C \<or> c = CHR 0x0D
      \<or> c = CHR '' '' \<or> c = CHR 0xA0)"

definition trim :: "string \<Rightarrow> string" where
  "trim s = rev (dropWhile isWhiteSpace (rev (dropWhile isWhiteSpace s)))"

text \<open>\<open>s.startsWith(p)\<close>\<close>

definition startsWith :: "string \<Rightarrow> string \<Rightarrow> bool" where
  "startsWith s p = (take (length p) s = p)"

text \<open>\<open>s.includes(p)\<close>: \<open>p\<close> occurs at some position of \<open>s\<close>.\<close>

fun includesStr :: "string \<Rightarrow> string \<Rightarrow> bool" where
  "includesStr [] p = (p = [])"
| "includesStr (c # cs) p = (startsWith (c # cs) p \<or> includesStr cs p)"

text \<open>
  \<open>s.split(sep)\<close> for a one-character separator: the pieces between the occurrences of
  \<open>sep\<close>; the empty string gives one empty piece.
\<close>

fun split :: "char \<Rightarrow> string \<Rightarrow> string list" where
  "split sep [] = [[]]"
| "split sep (c # cs) =
     (if c = sep then [] # split sep cs
      else (case split sep cs of
              [] \<Rightarrow> [[c]]
            | p # ps \<Rightarrow> (c # p) # ps))"

section \<open>generate-changelog.js: classifying a commit subject\<close>

record commit =
  hash :: string
  subject :: string
  body :: string
  type :: string
  scope :: string
  message :: string
  breaking :: bool

text \<open>The alternatives of the regular expression of \<open>getCommitType\<close>, in its order.\<close>

definition commitTypes :: "string list" where
  "commitTypes =
     [''feat'', ''fix'', ''docs'', ''style'', ''refactor'', ''perf'', ''test'', ''chore'',
      ''ci'', ''revert'']"

text \<open>
  \<open>subject.match(/^(feat|fix|...|revert)/)\<close>: the first alternative that is a prefix of
  the subject is group 1; without a match the type is \<open>other\<close>.
\<close>

definition getCommitType :: "string \<Rightarrow> string" where
  "getCommitType subj =
     (case find (startsWith subj) commitTypes of
        Some t \<Rightarrow> t
      | None \<Rightarrow> ''other'')"

text \<open>
  \<open>subject.match(/^[^(]+\(([^)]+)\)/)\<close>: one or more characters other than \<open>(\<close>, then
  \<open>(\<close>, then one or more characters other than \<open>)\<close> (group 1), then \<open>)\<close>. Both
  character classes exclude the character that has to follow them, so the only possible
  match takes the maximal runs.
\<close>

definition getCommitScope :: "string \<Rightarrow> string" where
  "getCommitScope subj =
     (let pre = takeWhile (\<lambda>c. c \<noteq> CHR ''('') subj;
          rest = dropWhile (\<lambda>c. c \<noteq> CHR ''('') subj
      in if pre = [] then []
         else (case rest of
                 [] \<Rightarrow> []
               | _ # inner \<Rightarrow>
                   (let grp = takeWhile (\<lambda>c. c \<noteq> CHR '')'') inner;
                        after = dropWhile (\<lambda>c. c \<noteq> CHR '')'') inner
                    in if grp = [] \<or> after = [] then [] else grp)))"

text \<open>
  \<open>subject.replace(/^[^:]+:\s*/, '')\<close>: one or more characters other than \<open>:\<close>, the
  colon and the white space after it are removed; a subject without such a prefix is
  returned unchanged.
\<close>

definition getCommitMessage :: "string \<Rightarrow> string" where
  "getCommitMessage subj =
     (let pre = takeWhile (\<lambda>c. c \<noteq> CHR '':'') subj;
          rest = dropWhile (\<lambda>c. c \<noteq> CHR '':'') subj
      in if pre = [] then subj
         else (case rest of
                 [] \<Rightarrow> subj
               | _ # after \<Rightarrow> dropWhile isWhiteSpace after))"

text \<open>
  One line of the \<open>git log --pretty=format:"%H|%s|%b"\<close> output, as the callback of
  \<open>map\<close> in \<open>getCommitsSinceLastTag\<close> handles it. With fewer than three fields
  \<open>subject\<close> or \<open>body\<close> is \<open>undefined\<close> and \<open>subject.trim()\<close> or
  \<open>body.includes(...)\<close> throws a TypeError: the result is \<open>None\<close>.
\<close>

definition parseLine :: "string \<Rightarrow> commit option" where
  "parseLine line =
     (case split CHR ''|'' line of
        h # s # b # _ \<Rightarrow>
          Some \<lparr>hash = take 7 h,
                subject = trim s,
                body = (if b \<noteq> [] then trim b else []),
                type = getCommitType s,
                scope = getCommitScope s,
                message = getCommitMessage s,
                breaking = includesStr b ''BREAKING CHANGE''\<rparr>
      | _ \<Rightarrow> None)"

text \<open>
  \<open>getCommitsSinceLastTag\<close>. The argument is what \<open>execSync\<close> delivers for the
  \<open>git log\<close> command: \<open>None\<close> when it throws. Every exception inside the \<open>try\<close>
  block, also the TypeError of a line with too few fields, ends in the \<open>catch\<close> branch
  that returns the empty list.
\<close>

definition getCommitsSinceLastTag :: "string option \<Rightarrow> commit list" where
  "getCommitsSinceLastTag gitLog =
     (case gitLog of
        None \<Rightarrow> []
      | Some raw \<Rightarrow>
          (let output = trim raw
           in if output = [] then []
              else (case those (map parseLine (split CHR 0x0A output)) of
                      None \<Rightarrow> []
                    | Some commits \<Rightarrow> commits)))"

section \<open>generate-changelog.js: grouping and rendering\<close>

text \<open>The keys of the \<open>groups\<close> object, in insertion order.\<close>

definition sections :: "string list" where
  "sections =
     [''Breaking Changes'', ''Features'', ''Bug Fixes'', ''Performance'', ''Documentation'',
      ''Other'']"

text \<open>The key chosen by the \<open>if\<close> chain in the body of the \<open>forEach\<close> of \<open>groupCommits\<close>.\<close>

definition sectionOf :: "commit \<Rightarrow> string" where
  "sectionOf c =
     (if breaking c then ''Breaking Changes''
      else if type c = ''feat'' then ''Features''
      else if type c = ''fix'' then ''Bug Fixes''
      else if type c = ''perf'' then ''Performance''
      else if type c = ''docs'' then ''Documentation''
      else ''Other'')"

text \<open>\<open>groups[key].push(commit)\<close> on the object as a list of entries.\<close>

definition push :: "string \<Rightarrow> commit \<Rightarrow> (string \<times> commit list) list \<Rightarrow> (string \<times> commit list) list" where
  "push key c groups = map (\<lambda>(k, cs). if k = key then (k, cs @ [c]) else (k, cs)) groups"

definition groupCommits :: "commit list \<Rightarrow> (string \<times> commit list) list" where
  "groupCommits commits =
     filter (\<lambda>(_, cs). length cs > 0)
       (foldl (\<lambda>groups c. push (sectionOf c) c groups) (map (\<lambda>k. (k, [])) sections) commits)"

definition formatCommit :: "commit \<Rightarrow> string" where
  "formatCommit c =
     (let scopeStr = (if scope c \<noteq> [] then '' **'' @ scope c @ ''**:'' else []);
          link = '' (['' @ hash c @ ''](../../commit/'' @ hash c @ ''))''
      in ''- '' @ message c @ scopeStr @ link)"

definition generateEntries :: "commit list \<Rightarrow> string" where
  "generateEntries commits =
     (if length commits = 0 then []
      else foldl (\<lambda>entries (sec, cs).
                    foldl (\<lambda>e c. e @ formatCommit c @ ''\<newline>'')
                      (entries @ ''### '' @ sec @ ''\<newline>\<newline>'') cs @ ''\<newline>'')
             [] (groupCommits commits))"

text \<open>
  The version is a string or \<open>undefined\<close> (\<open>None\<close>); a template literal renders
  \<open>undefined\<close> as the word. The date of \<open>getDate\<close> comes from the clock and is a
  parameter.
\<close>

definition render :: "string option \<Rightarrow> string" where
  "render v = (case v of None \<Rightarrow> ''undefined'' | Some s \<Rightarrow> s)"

definition generateReleaseSection :: "string option \<Rightarrow> string \<Rightarrow> string \<Rightarrow> string" where
  "generateReleaseSection version date entries =
     (if trim entries = [] then []
      else ''## ['' @ render version @ ''] - '' @ date @ ''\<newline>\<newline>'' @ entries @ ''\<newline>'')"

section \<open>generate-changelog.js: the files and the run\<close>

text \<open>
  What reading and parsing \<open>package.json\<close> gives: the read throws, \<open>JSON.parse\<close>
  throws, or there is an object whose \<open>version\<close> property is a string or absent.
\<close>

datatype manifest = Unreadable | Malformed | Package "string option"

definition detectVersion :: "manifest \<Rightarrow> string option" where
  "detectVersion pkg =
     (case pkg of
        Package v \<Rightarrow> v
      | _ \<Rightarrow> Some ''1.0.0'')"

text \<open>
  The constructor's \<open>options.version || this.detectVersion()\<close>: an absent or empty
  option is falsy.
\<close>

definition constructorVersion :: "string option \<Rightarrow> manifest \<Rightarrow> string option" where
  "constructorVersion optVersion pkg =
     (case optVersion of
        None \<Rightarrow> detectVersion pkg
      | Some v \<Rightarrow> if v = [] then detectVersion pkg else Some v)"

record world =
  packageJson :: manifest
  gitLog :: "string option"
  changelog :: "string option"
  writable :: bool

definition readExistingChangelog :: "world \<Rightarrow> string" where
  "readExistingChangelog w = (case changelog w of None \<Rightarrow> [] | Some text \<Rightarrow> text)"

text \<open>
  What a run does to the changelog file: it returns before composing anything, it prints
  the content (dry run), it replaces the file by the content, or \<open>writeFileSync\<close>
  throws and nothing catches it.
\<close>

datatype outcome = NoCommits | DryRun string | Written string | WriteError

definition writeChangelog :: "bool \<Rightarrow> string \<Rightarrow> world \<Rightarrow> outcome" where
  "writeChangelog dryRun content w =
     (if dryRun then DryRun content
      else if writable w then Written content
      else WriteError)"

definition generate :: "bool \<Rightarrow> string option \<Rightarrow> string \<Rightarrow> world \<Rightarrow> outcome" where
  "generate dryRun optVersion date w =
     (let version = constructorVersion optVersion (packageJson w);
          commits = getCommitsSinceLastTag (gitLog w)
      in if length commits = 0 then NoCommits
         else (let entries = generateEntries commits;
                   releaseSection = generateReleaseSection version date entries;
                   existingChangelog = readExistingChangelog w;
                   header = (if startsWith existingChangelog ''# Changelog'' then []
                             else ''# Changelog\<newline>\<newline>'');
                   newContent = header @ releaseSection @ existingChangelog
               in writeChangelog dryRun newContent w))"

section \<open>prepare-release.sh: detecting the release type\<close>

text \<open>
  \<open>echo "$COMMIT_HISTORY" | grep -q "^.*PAT"\<close> for a pattern without metacharacters:
  some line of the history contains it. The history is the list of its lines.
\<close>

definition grepQ :: "string \<Rightarrow> string list \<Rightarrow> bool" where
  "grepQ pat history = list_ex (\<lambda>line. includesStr line pat) history"

text \<open>
  The block under \<open># Auto-detect version if requested\<close>; without \<open>--auto\<close> the
  release type stays what \<open>--type\<close> set (\<open>patch\<close> when not given).
\<close>

definition autoDetect :: "bool \<Rightarrow> string \<Rightarrow> string list \<Rightarrow> string" where
  "autoDetect AUTO_DETECT RELEASE_TYPE COMMIT_HISTORY =
     (if AUTO_DETECT then
        (if grepQ ''BREAKING CHANGE'' COMMIT_HISTORY then ''major''
         else if grepQ ''feat'' COMMIT_HISTORY then ''minor''
         else ''patch'')
      else RELEASE_TYPE)"

text \<open>
  The line \<open>git log --oneline\<close> prints for a commit: the abbreviated hash, a space and
  the subject. The body of the commit is not part of it.
\<close>

definition oneline :: "commit \<Rightarrow> string" where
  "oneline c = hash c @ '' '' @ subject c"

section \<open>Example inputs\<close>

definition featAddX :: commit where
  "featAddX =
     \<lparr>hash = ''abc1234'', subject = ''feat: add x'', body = [], type = ''feat'', scope = [],
      message = ''add x'', breaking = False\<rparr>"

definition refactorCleanup :: commit where
  "refactorCleanup =
     \<lparr>hash = ''def5678'', subject = ''refactor: cleanup'',
      body = ''BREAKING CHANGE: removed foo()'', type = ''refactor'', scope = [],
      message = ''cleanup'', breaking = True\<rparr>"

definition featBreaking :: commit where
  "featBreaking =
     \<lparr>hash = ''0a1b2c3'', subject = ''feat(api): new login'',
      body = ''BREAKING CHANGE: old login removed'', type = ''feat'', scope = ''api'',
      message = ''new login'', breaking = True\<rparr>"

definition emptyRepo :: world where
  "emptyRepo = \<lparr>packageJson = Package (Some ''1.2.3''), gitLog = Some [], changelog = None,
                  writable = True\<rparr>"

definition docsTypo :: commit where
  "docsTypo =
     \<lparr>hash = ''1111111'', subject = ''docs: fix typo'', body = [], type = ''docs'',
      scope = [], message = ''fix typo'', breaking = False\<rparr>"

definition choreDeps :: commit where
  "choreDeps =
     \<lparr>hash = ''3333333'', subject = ''chore: update deps'', body = [], type = ''chore'',
      scope = [], message = ''update deps'', breaking = False\<rparr>"

definition docsFeature :: commit where
  "docsFeature =
     \<lparr>hash = ''2222222'', subject = ''docs: describe feature flags'', body = [],
      type = ''docs'', scope = [], message = ''describe feature flags'', breaking = False\<rparr>"

text \<open>A \<open>git log\<close> output of one commit whose body carries the breaking-change marker.\<close>

definition breakingFixLog :: string where
  "breakingFixLog = ''abc1234def5678|fix: drop api|BREAKING CHANGE: removed foo()''"

definition scopedFeatLog :: string where
  "scopedFeatLog = ''abc1234def5678|feat(s): d|''"

definition featLog :: string where
  "featLog = ''abc1234def5678|feat: add x|''"

definition noManifest :: world where
  "noManifest = \<lparr>packageJson = Unreadable, gitLog = Some featLog, changelog = None,
                   writable = True\<rparr>"

definition secondRelease :: world where
  "secondRelease =
     \<lparr>packageJson = Package (Some ''1.1.0''), gitLog = Some featLog,
      changelog = Some ''# Changelog\<newline>\<newline>## [1.0.0] - 2024-01-01\<newline>'',
      writable = True\<rparr>"

section \<open>Grouping: the groups are the filters of the input\<close>

lemma foldl_push:
  "foldl (\<lambda>groups c. push (sectionOf c) c groups) g commits =
     map (\<lambda>(k, cs). (k, cs @ filter (\<lambda>c. sectionOf c = k) commits)) g"
proof (induction commits arbitrary: g)
  case Nil
  show ?case by simp
next
  case (Cons c commits)
  show ?case
    unfolding foldl_Cons Cons.IH
    by (auto simp: push_def)
qed

lemma groupCommits_filter:
  "groupCommits commits =
     filter (\<lambda>(_, cs). cs \<noteq> [])
       (map (\<lambda>k. (k, filter (\<lambda>c. sectionOf c = k) commits)) sections)"
  by (simp add: groupCommits_def foldl_push comp_def)

lemma sectionOf_in_sections: "sectionOf c \<in> set sections"
  by (simp add: sectionOf_def sections_def)

lemma distinct_sections: "distinct sections"
  by (simp add: sections_def)

lemma groupCommits_entry:
  "(name, cs) \<in> set (groupCommits commits) \<longleftrightarrow>
     name \<in> set sections \<and> cs = filter (\<lambda>c. sectionOf c = name) commits \<and> cs \<noteq> []"
  by (auto simp: groupCommits_filter)

lemma groupCommits_names:
  "map fst (groupCommits commits) =
     filter (\<lambda>k. filter (\<lambda>c. sectionOf c = k) commits \<noteq> []) sections"
  by (simp add: groupCommits_filter filter_map comp_def)

lemma commit_in_its_group:
  assumes "c \<in> set commits"
  shows "(sectionOf c, filter (\<lambda>d. sectionOf d = sectionOf c) commits) \<in> set (groupCommits commits)"
    and "c \<in> set (filter (\<lambda>d. sectionOf d = sectionOf c) commits)"
proof -
  show in_group: "c \<in> set (filter (\<lambda>d. sectionOf d = sectionOf c) commits)"
    using assms by simp
  then have "filter (\<lambda>d. sectionOf d = sectionOf c) commits \<noteq> []"
    by force
  then show "(sectionOf c, filter (\<lambda>d. sectionOf d = sectionOf c) commits) \<in> set (groupCommits commits)"
    by (simp add: groupCommits_entry sectionOf_in_sections)
qed

lemma concat_filter_nonempty:
  "concat (map snd (filter (\<lambda>(_, cs). cs \<noteq> []) xs)) = concat (map snd xs)"
  by (induction xs) auto

lemma mset_concat_filter:
  "distinct ks \<Longrightarrow>
     mset (concat (map (\<lambda>k. filter (\<lambda>c. f c = k) cs) ks)) =
     filter_mset (\<lambda>c. f c \<in> set ks) (mset cs)"
proof (induction ks)
  case Nil
  show ?case by simp
next
  case (Cons k ks)
  then have k: "k \<notin> set ks"
    and IH: "mset (concat (map (\<lambda>k. filter (\<lambda>c. f c = k) cs) ks)) =
             filter_mset (\<lambda>c. f c \<in> set ks) (mset cs)"
    by simp_all
  have "filter_mset (\<lambda>c. f c = k) (mset cs) + filter_mset (\<lambda>c. f c \<in> set ks) (mset cs) =
        filter_mset (\<lambda>c. f c \<in> set (k # ks)) (mset cs)"
    using k by (intro multiset_eqI) auto
  then show ?case
    using IH by simp
qed

lemma mset_groups: "mset (concat (map snd (groupCommits commits))) = mset commits"
proof -
  have "mset (concat (map (\<lambda>k. filter (\<lambda>c. sectionOf c = k) commits) sections)) =
        filter_mset (\<lambda>c. sectionOf c \<in> set sections) (mset commits)"
    using distinct_sections by (rule mset_concat_filter)
  then show ?thesis
    by (simp add: groupCommits_filter concat_filter_nonempty comp_def sectionOf_in_sections)
qed

lemma groupCommits_nonempty: "commits \<noteq> [] \<Longrightarrow> groupCommits commits \<noteq> []"
proof
  assume ne: "commits \<noteq> []" and "groupCommits commits = []"
  then have "mset commits = {#}" using mset_groups [of commits] by simp
  with ne show False by simp
qed

section \<open>Rendering: the text only grows\<close>

lemma length_foldl_lines: "length a \<le> length (foldl (\<lambda>e c. e @ f c) a cs)"
proof (induction cs arbitrary: a)
  case Nil
  show ?case by simp
next
  case (Cons c cs)
  from Cons [of "a @ f c"] show ?case by simp
qed

lemma length_foldl_sections:
  "length a \<le>
   length (foldl (\<lambda>entries (sec, cs). foldl (\<lambda>e c. e @ f c) (entries @ h sec) cs @ t) a gs)"
proof (induction gs arbitrary: a)
  case Nil
  show ?case by simp
next
  case (Cons g gs)
  obtain sec cs where g: "g = (sec, cs)" by (cases g)
  have "length a \<le> length (foldl (\<lambda>e c. e @ f c) (a @ h sec) cs @ t)"
    using length_foldl_lines [of "a @ h sec" f cs] by simp
  also have "\<dots> \<le> length (foldl (\<lambda>entries (sec, cs).
                                   foldl (\<lambda>e c. e @ f c) (entries @ h sec) cs @ t)
                            (foldl (\<lambda>e c. e @ f c) (a @ h sec) cs @ t) gs)"
    by (rule Cons)
  finally show ?case by (simp add: g)
qed

lemma generateEntries_nonempty: "commits \<noteq> [] \<Longrightarrow> generateEntries commits \<noteq> []"
proof -
  assume ne: "commits \<noteq> []"
  then obtain g gs where gs: "groupCommits commits = g # gs"
    using groupCommits_nonempty by (cases "groupCommits commits") auto
  obtain sec cs where g: "g = (sec, cs)" by (cases g)
  let ?f = "\<lambda>c. formatCommit c @ ''\<newline>''"
  let ?h = "\<lambda>sec. ''### '' @ sec @ ''\<newline>\<newline>''"
  let ?first = "foldl (\<lambda>e c. e @ ?f c) ([] @ ?h sec) cs @ ''\<newline>''"
  have "0 < length ?first" by simp
  also have "length ?first \<le>
      length (foldl (\<lambda>entries (sec, cs). foldl (\<lambda>e c. e @ ?f c) (entries @ ?h sec) cs @ ''\<newline>'')
                ?first gs)"
    by (rule length_foldl_sections)
  finally show ?thesis
    using ne by (auto simp add: generateEntries_def gs g)
qed

text \<open>
  C7. A commit whose \<open>breaking\<close> flag is set, whatever its type, is found in the group
  \<open>Breaking Changes\<close> of \<open>groupCommits\<close> and in no group of another name.
\<close>

theorem breaking_only_in_Breaking_Changes:
  assumes "breaking c" and "c \<in> set commits"
  shows "(\<exists>cs. (''Breaking Changes'', cs) \<in> set (groupCommits commits) \<and> c \<in> set cs) \<and>
         (\<forall>name cs. (name, cs) \<in> set (groupCommits commits) \<and> c \<in> set cs \<longrightarrow>
                      name = ''Breaking Changes'')"
proof -
  from assms(1) have sec: "sectionOf c = ''Breaking Changes''"
    by (simp add: sectionOf_def)
  have "\<exists>cs. (''Breaking Changes'', cs) \<in> set (groupCommits commits) \<and> c \<in> set cs"
    using commit_in_its_group [OF assms(2)] unfolding sec by blast
  moreover have "name = ''Breaking Changes''"
    if "(name, cs) \<in> set (groupCommits commits) \<and> c \<in> set cs" for name cs
    using that sec by (auto simp: groupCommits_entry)
  ultimately show ?thesis by blast
qed

theorem breaking_only_in_Breaking_Changes_witness:
  "breaking featBreaking \<and> featBreaking \<in> set [featAddX, featBreaking] \<and>
   (\<exists>cs. (''Breaking Changes'', cs) \<in> set (groupCommits [featAddX, featBreaking]) \<and>
         featBreaking \<in> set cs) \<and>
   \<not> (\<exists>cs. (''Features'', cs) \<in> set (groupCommits [featAddX, featBreaking]) \<and>
           featBreaking \<in> set cs)"
proof -
  have b: "breaking featBreaking" by (simp add: featBreaking_def)
  have m: "featBreaking \<in> set [featAddX, featBreaking]" by simp
  have "''Features'' \<noteq> ''Breaking Changes''" by simp
  then show ?thesis
    using b m breaking_only_in_Breaking_Changes [OF b m] by blast
qed

text \<open>
  C10. Grouping is a partition of the commit list. The groups together hold every commit
  as often as the input does; the names of the groups are distinct names among the six
  categories, in their order; every commit of the input is in the group of the category
  that the \<open>if\<close> chain gives it, which is one of the six and is \<open>Other\<close> for a commit
  that is not breaking and has none of the types \<open>feat\<close>, \<open>fix\<close>, \<open>perf\<close>,
  \<open>docs\<close>; every group is the input filtered by its category, so a commit is in no
  other group and the order of the input is kept; and a non-empty commit list gives a
  non-empty entries text.
\<close>

theorem groupCommits_partition:
  "mset (concat (map snd (groupCommits commits))) = mset commits \<and>
   subseq (map fst (groupCommits commits)) sections \<and>
   distinct (map fst (groupCommits commits)) \<and>
   (\<forall>c \<in> set commits. \<exists>cs. (sectionOf c, cs) \<in> set (groupCommits commits) \<and> c \<in> set cs) \<and>
   sectionOf d \<in> set sections \<and>
   (\<not> breaking d \<and> type d \<notin> set [''feat'', ''fix'', ''perf'', ''docs''] \<longrightarrow>
      sectionOf d = ''Other'') \<and>
   (\<forall>(name, cs) \<in> set (groupCommits commits).
       cs = filter (\<lambda>c. sectionOf c = name) commits \<and> subseq cs commits) \<and>
   (commits \<noteq> [] \<longrightarrow> generateEntries commits \<noteq> [])"
proof -
  have other: "\<not> breaking d \<and> type d \<notin> set [''feat'', ''fix'', ''perf'', ''docs''] \<longrightarrow>
                 sectionOf d = ''Other''"
    by (simp add: sectionOf_def)
  have names: "subseq (map fst (groupCommits commits)) sections"
    by (simp add: groupCommits_names)
  have dist: "distinct (map fst (groupCommits commits))"
    by (simp add: groupCommits_names distinct_sections)
  have placed: "\<forall>c \<in> set commits. \<exists>cs. (sectionOf c, cs) \<in> set (groupCommits commits) \<and> c \<in> set cs"
    using commit_in_its_group by blast
  have filt: "\<forall>(name, cs) \<in> set (groupCommits commits).
                 cs = filter (\<lambda>c. sectionOf c = name) commits \<and> subseq cs commits"
    by (auto simp: groupCommits_entry)
  show ?thesis
    using mset_groups names dist placed filt other sectionOf_in_sections
      generateEntries_nonempty
    by blast
qed

theorem groupCommits_partition_witness:
  "[featAddX, refactorCleanup] \<noteq> [] \<and>
   generateEntries [featAddX, refactorCleanup] \<noteq> [] \<and>
   featAddX \<in> set [featAddX, refactorCleanup] \<and>
   (\<exists>cs. (sectionOf featAddX, cs) \<in> set (groupCommits [featAddX, refactorCleanup]) \<and>
         featAddX \<in> set cs) \<and>
   \<not> breaking choreDeps \<and> type choreDeps \<notin> set [''feat'', ''fix'', ''perf'', ''docs''] \<and>
   sectionOf choreDeps = ''Other'' \<and>
   mset (concat (map snd (groupCommits [featAddX, refactorCleanup]))) =
     mset [featAddX, refactorCleanup]"
proof -
  note p = groupCommits_partition [of "[featAddX, refactorCleanup]" choreDeps]
  have ne: "[featAddX, refactorCleanup] \<noteq> []" by simp
  have m: "featAddX \<in> set [featAddX, refactorCleanup]" by simp
  have o: "\<not> breaking choreDeps \<and> type choreDeps \<notin> set [''feat'', ''fix'', ''perf'', ''docs'']"
    by (simp add: choreDeps_def)
  from p ne have "generateEntries [featAddX, refactorCleanup] \<noteq> []" by blast
  moreover from p m
  have "\<exists>cs. (sectionOf featAddX, cs) \<in> set (groupCommits [featAddX, refactorCleanup]) \<and>
             featAddX \<in> set cs"
    by blast
  moreover from p o have "sectionOf choreDeps = ''Other''" by blast
  moreover from p
  have "mset (concat (map snd (groupCommits [featAddX, refactorCleanup]))) =
          mset [featAddX, refactorCleanup]"
    by blast
  ultimately show ?thesis using ne m o by blast
qed

section \<open>Classifying subjects\<close>

lemma takeWhile_all: "x \<notin> set s \<Longrightarrow> takeWhile (\<lambda>c. c \<noteq> x) s = s"
  by (induction s) auto

lemma dropWhile_none: "x \<notin> set s \<Longrightarrow> dropWhile (\<lambda>c. c \<noteq> x) s = []"
  by (induction s) auto

lemma takeWhile_stop: "x \<notin> set pre \<Longrightarrow> takeWhile (\<lambda>c. c \<noteq> x) (pre @ x # rest) = pre"
  by (induction pre) auto

lemma dropWhile_stop:
  "x \<notin> set pre \<Longrightarrow> dropWhile (\<lambda>c. c \<noteq> x) (pre @ x # rest) = x # rest"
  by (induction pre) auto

lemma dropWhile_ws: "list_all isWhiteSpace ws \<Longrightarrow> dropWhile isWhiteSpace ws = []"
  by (induction ws) auto

lemma getCommitType_words:
  "\<forall>t \<in> set commitTypes. getCommitType (t @ CHR '':'' # ws) = t"
  by (simp add: getCommitType_def commitTypes_def startsWith_def)

lemma colon_not_in_type: "\<forall>t \<in> set commitTypes. t \<noteq> [] \<and> CHR '':'' \<notin> set t \<and> CHR ''('' \<notin> set t"
  by (simp add: commitTypes_def)

lemma other_not_type: "''other'' \<notin> set commitTypes"
  by (simp add: commitTypes_def)

lemma getCommitType_other_iff:
  "getCommitType s = ''other'' \<longleftrightarrow> \<not> list_ex (startsWith s) commitTypes"
proof (cases "find (startsWith s) commitTypes")
  case None
  then have "\<not> list_ex (startsWith s) commitTypes"
    by (simp add: find_None_iff list_ex_iff)
  with None show ?thesis
    by (simp add: getCommitType_def)
next
  case (Some t)
  then have t: "t \<in> set commitTypes" "startsWith s t"
    by (auto simp: find_Some_iff)
  then have "t \<noteq> ''other''"
    using other_not_type by blast
  with t Some show ?thesis
    by (auto simp: getCommitType_def list_ex_iff)
qed

lemma getCommitScope_no_paren: "CHR ''('' \<notin> set s \<Longrightarrow> getCommitScope s = []"
  by (simp add: getCommitScope_def takeWhile_all dropWhile_none)

lemma getCommitScope_group:
  assumes "pre \<noteq> []" "CHR ''('' \<notin> set pre" "grp \<noteq> []" "CHR '')'' \<notin> set grp"
  shows "getCommitScope (pre @ ''('' @ grp @ '')'' @ rest) = grp"
  using assms by (simp add: getCommitScope_def takeWhile_stop dropWhile_stop)

lemma getCommitMessage_no_colon: "CHR '':'' \<notin> set s \<Longrightarrow> getCommitMessage s = s"
  by (simp add: getCommitMessage_def takeWhile_all dropWhile_none)

lemma getCommitMessage_colon:
  assumes "pre \<noteq> []" "CHR '':'' \<notin> set pre"
  shows "getCommitMessage (pre @ '':'' @ rest) = dropWhile isWhiteSpace rest"
  using assms by (simp add: getCommitMessage_def takeWhile_stop dropWhile_stop)

text \<open>
  C3, as the code has it. A subject made of a recognised type word, a colon and nothing
  but white space keeps its type: the type is the word, the scope is empty and the
  description is the empty string.
\<close>

theorem empty_description_keeps_type:
  assumes "t \<in> set commitTypes" and "list_all isWhiteSpace ws"
  shows "getCommitType (t @ '':'' @ ws) = t \<and>
         getCommitScope (t @ '':'' @ ws) = [] \<and>
         getCommitMessage (t @ '':'' @ ws) = []"
proof -
  from assms(1) have t: "t \<noteq> []" "CHR '':'' \<notin> set t" "CHR ''('' \<notin> set t"
    using colon_not_in_type by blast+
  have ws: "CHR ''('' \<notin> set ws"
    using assms(2) by (auto simp: list_all_iff isWhiteSpace_def)
  have "getCommitType (t @ '':'' @ ws) = t"
    using getCommitType_words assms(1) by simp
  moreover have "getCommitScope (t @ '':'' @ ws) = []"
    using t ws by (intro getCommitScope_no_paren) simp
  moreover have "getCommitMessage (t @ '':'' @ ws) = []"
    using getCommitMessage_colon [OF t(1) t(2), of ws] assms(2) by (simp add: dropWhile_ws)
  ultimately show ?thesis by blast
qed

theorem empty_description_keeps_type_witness:
  "''fix'' \<in> set commitTypes \<and> list_all isWhiteSpace '' '' \<and>
   getCommitType ''fix: '' = ''fix'' \<and> getCommitScope ''fix: '' = [] \<and>
   getCommitMessage ''fix: '' = []"
proof -
  have t: "''fix'' \<in> set commitTypes" by (simp add: commitTypes_def)
  have ws: "list_all isWhiteSpace '' ''" by (simp add: isWhiteSpace_def)
  show ?thesis
    using t ws empty_description_keeps_type [OF t ws] by simp
qed

text \<open>
  C3 as the claim states it fails at its own example: for \<open>feat: \<close> the type is
  \<open>feat\<close>, not \<open>other\<close>, and the description is empty, not the subject.
\<close>

theorem empty_description_counterexample:
  "getCommitType ''feat: '' = ''feat'' \<and> getCommitType ''feat: '' \<noteq> ''other'' \<and>
   getCommitScope ''feat: '' = [] \<and>
   getCommitMessage ''feat: '' = [] \<and> getCommitMessage ''feat: '' \<noteq> ''feat: ''"
  by code_simp

text \<open>
  C4, as the code has it. The three fields come from three independent expressions. The
  type is \<open>other\<close> exactly when no type word is a prefix of the subject. The scope is
  empty when the subject has no opening parenthesis, and the description is the subject
  when it has no colon; but whatever the type, a subject \<open>pre(grp)rest\<close> has the scope
  \<open>grp\<close> and a subject \<open>pre:rest\<close> has the description \<open>rest\<close> without its leading
  white space.
\<close>

theorem subject_fields_independent:
  "(getCommitType s = ''other'' \<longleftrightarrow> \<not> list_ex (startsWith s) commitTypes) \<and>
   (CHR ''('' \<notin> set s \<longrightarrow> getCommitScope s = []) \<and>
   (CHR '':'' \<notin> set s \<longrightarrow> getCommitMessage s = s) \<and>
   (pre \<noteq> [] \<and> CHR ''('' \<notin> set pre \<and> grp \<noteq> [] \<and> CHR '')'' \<notin> set grp \<longrightarrow>
      getCommitScope (pre @ ''('' @ grp @ '')'' @ rest) = grp) \<and>
   (lead \<noteq> [] \<and> CHR '':'' \<notin> set lead \<longrightarrow>
      getCommitMessage (lead @ '':'' @ tail) = dropWhile isWhiteSpace tail)"
  using getCommitType_other_iff getCommitScope_no_paren getCommitMessage_no_colon
    getCommitScope_group getCommitMessage_colon
  by blast

theorem subject_fields_independent_witness:
  "\<not> list_ex (startsWith ''update readme'') commitTypes \<and>
   getCommitType ''update readme'' = ''other'' \<and>
   getCommitScope ''update readme'' = [] \<and>
   getCommitMessage ''update readme'' = ''update readme'' \<and>
   getCommitScope ''random(x): do it'' = ''x'' \<and>
   getCommitMessage ''random(x): do it'' = ''do it''"
proof -
  note p = subject_fields_independent
    [of "''update readme''" "''random''" "''x''" "'': do it''" "''random(x)''" "'' do it''"]
  have a: "\<not> list_ex (startsWith ''update readme'') commitTypes"
    by (simp add: commitTypes_def startsWith_def)
  have b: "CHR ''('' \<notin> set ''update readme''" by simp
  have c: "CHR '':'' \<notin> set ''update readme''" by simp
  have d: "''random'' \<noteq> [] \<and> CHR ''('' \<notin> set ''random'' \<and> ''x'' \<noteq> [] \<and> CHR '')'' \<notin> set ''x''"
    by simp
  have e: "''random(x)'' \<noteq> [] \<and> CHR '':'' \<notin> set ''random(x)''" by simp
  have ws: "dropWhile isWhiteSpace '' do it'' = ''do it''"
    by (simp add: isWhiteSpace_def)
  from p d have "getCommitScope (''random'' @ ''('' @ ''x'' @ '')'' @ '': do it'') = ''x''"
    by blast
  then have f: "getCommitScope ''random(x): do it'' = ''x''" by simp
  from p e have "getCommitMessage (''random(x)'' @ '':'' @ '' do it'') =
                   dropWhile isWhiteSpace '' do it''"
    by blast
  then have g: "getCommitMessage ''random(x): do it'' = ''do it''" using ws by simp
  from p a b c f g show ?thesis by blast
qed

text \<open>
  C4 as the claim states it fails at its own examples: \<open>random(x): do it\<close> has the
  scope \<open>x\<close> and the description \<open>do it\<close>, and \<open>URL: http://x\<close> has the description
  \<open>http://x\<close>.
\<close>

theorem unmatched_subject_counterexample:
  "getCommitType ''random(x): do it'' = ''other'' \<and>
   getCommitScope ''random(x): do it'' = ''x'' \<and>
   getCommitScope ''random(x): do it'' \<noteq> [] \<and>
   getCommitMessage ''random(x): do it'' = ''do it'' \<and>
   getCommitMessage ''random(x): do it'' \<noteq> ''random(x): do it'' \<and>
   getCommitType ''URL: http://x'' = ''other'' \<and>
   getCommitMessage ''URL: http://x'' = ''http://x'' \<and>
   getCommitMessage ''URL: http://x'' \<noteq> ''URL: http://x''"
  by code_simp

section \<open>Detecting the release type\<close>

lemma startsWith_iff: "startsWith s p \<longleftrightarrow> (\<exists>b. s = p @ b)"
proof
  assume "startsWith s p"
  then have "s = p @ drop (length p) s"
    by (metis append_take_drop_id startsWith_def)
  then show "\<exists>b. s = p @ b" ..
next
  assume "\<exists>b. s = p @ b"
  then show "startsWith s p"
    by (auto simp: startsWith_def)
qed

lemma includesStr_iff: "includesStr s p \<longleftrightarrow> (\<exists>a b. s = a @ p @ b)"
proof (induction s)
  case Nil
  show ?case by auto
next
  case (Cons c cs)
  show ?case
  proof
    assume "includesStr (c # cs) p"
    then consider "startsWith (c # cs) p" | "includesStr cs p" by auto
    then show "\<exists>a b. c # cs = a @ p @ b"
    proof cases
      case 1
      then obtain b where "c # cs = [] @ p @ b" by (auto simp: startsWith_iff)
      then show ?thesis by blast
    next
      case 2
      then obtain a b where "cs = a @ p @ b" using Cons.IH by blast
      then have "c # cs = (c # a) @ p @ b" by simp
      then show ?thesis by blast
    qed
  next
    assume "\<exists>a b. c # cs = a @ p @ b"
    then obtain a b where ab: "c # cs = a @ p @ b" by blast
    show "includesStr (c # cs) p"
    proof (cases a)
      case Nil
      with ab have "startsWith (c # cs) p" by (auto simp: startsWith_iff)
      then show ?thesis by simp
    next
      case (Cons x a')
      with ab have "cs = a' @ p @ b" by simp
      then have "includesStr cs p" using Cons.IH by blast
      then show ?thesis by simp
    qed
  qed
qed

text \<open>A history has a line for \<open>grep\<close> exactly when some line contains the pattern.\<close>

lemma grepQ_iff: "grepQ pat history \<longleftrightarrow> (\<exists>line \<in> set history. \<exists>a b. line = a @ pat @ b)"
  by (simp add: grepQ_def list_ex_iff includesStr_iff)

text \<open>
  C5, as the code has it. With \<open>--auto\<close>, a history in which no line contains
  \<open>BREAKING CHANGE\<close> or \<open>feat\<close>, the empty history among them, gives the release type
  \<open>patch\<close>; the script has no release type \<open>none\<close>.
\<close>

theorem autoDetect_patch:
  assumes "\<not> grepQ ''BREAKING CHANGE'' history" and "\<not> grepQ ''feat'' history"
  shows "autoDetect True releaseType history = ''patch''"
  using assms by (simp add: autoDetect_def)

theorem autoDetect_patch_witness:
  "\<not> grepQ ''BREAKING CHANGE'' (map oneline [docsTypo]) \<and>
   \<not> grepQ ''feat'' (map oneline [docsTypo]) \<and>
   autoDetect True ''patch'' (map oneline [docsTypo]) = ''patch''"
proof -
  have a: "\<not> grepQ ''BREAKING CHANGE'' (map oneline [docsTypo])" by code_simp
  have b: "\<not> grepQ ''feat'' (map oneline [docsTypo])" by code_simp
  show ?thesis
    using a b autoDetect_patch [OF a b, of "''patch''"] by blast
qed

text \<open>
  C5 as the claim states it fails: the empty history and a history of one \<open>docs\<close>
  commit that is not breaking give \<open>patch\<close>, not \<open>none\<close>, and a \<open>docs\<close> commit whose
  subject contains the letters \<open>feat\<close> gives \<open>minor\<close>.
\<close>

theorem no_bump_counterexample:
  "autoDetect True ''patch'' (map oneline []) = ''patch'' \<and>
   autoDetect True ''patch'' (map oneline []) \<noteq> ''none'' \<and>
   type docsTypo = ''docs'' \<and> \<not> breaking docsTypo \<and>
   autoDetect True ''patch'' (map oneline [docsTypo]) = ''patch'' \<and>
   type docsFeature = ''docs'' \<and> \<not> breaking docsFeature \<and>
   autoDetect True ''patch'' (map oneline [docsFeature]) = ''minor''"
  by code_simp

text \<open>
  C6 at a failing input. The commit has the subject \<open>fix: drop api\<close> and the body
  \<open>BREAKING CHANGE: removed foo()\<close>: its \<open>breaking\<close> flag is set, and the release type
  detected from the one-line history is \<open>patch\<close>, not \<open>major\<close>.
\<close>

theorem breaking_body_detected_as_patch:
  "map breaking (getCommitsSinceLastTag (Some breakingFixLog)) = [True] \<and>
   map oneline (getCommitsSinceLastTag (Some breakingFixLog)) = [''abc1234 fix: drop api''] \<and>
   autoDetect True ''patch'' (map oneline (getCommitsSinceLastTag (Some breakingFixLog))) =
     ''patch''"
  by code_simp

section \<open>The run of the generator\<close>

text \<open>
  C1 at a failing input. The changelog begins with the header \<open># Changelog\<close>; the new
  content begins with the release section and the header comes after it.
\<close>

theorem header_after_release_section:
  "generate False None ''2024-01-15'' secondRelease =
     Written (''## [1.1.0] - 2024-01-15\<newline>\<newline>### Features\<newline>\<newline>'' @
              ''- add x ([abc1234](../../commit/abc1234))\<newline>\<newline>\<newline>'' @
              ''# Changelog\<newline>\<newline>## [1.0.0] - 2024-01-01\<newline>'')"
  by code_simp

text \<open>
  C2 at a failing input. For the commit \<open>feat(s): d\<close> with the hash \<open>abc1234\<close> the
  rendered line has the bold scope after the description.
\<close>

theorem scope_after_description:
  "map formatCommit (getCommitsSinceLastTag (Some scopedFeatLog)) =
     [''- d **s**: ([abc1234](../../commit/abc1234))''] \<and>
   map formatCommit (getCommitsSinceLastTag (Some scopedFeatLog)) \<noteq>
     [''- **s**: d ([abc1234](../../commit/abc1234))'']"
  by code_simp

text \<open>
  C8. For the empty commit list the entries and the release section are the empty string,
  whatever the version and the date, and a run that finds no commits returns before it
  reads or writes the changelog, whatever the existing text.
\<close>

theorem no_commits_no_write:
  "generateEntries [] = [] \<and>
   generateReleaseSection version date (generateEntries []) = [] \<and>
   (getCommitsSinceLastTag (gitLog w) = [] \<longrightarrow> generate dryRun optVersion date w = NoCommits)"
  by (simp add: generateEntries_def generateReleaseSection_def trim_def generate_def)

theorem no_commits_no_write_witness:
  "getCommitsSinceLastTag (gitLog emptyRepo) = [] \<and>
   generate False None ''2024-01-15'' emptyRepo = NoCommits \<and>
   generateReleaseSection (Some ''1.2.3'') ''2024-01-15'' (generateEntries []) = []"
proof -
  have a: "getCommitsSinceLastTag (gitLog emptyRepo) = []"
    by (simp add: emptyRepo_def getCommitsSinceLastTag_def trim_def)
  show ?thesis
    using a no_commits_no_write [of "Some ''1.2.3''" "''2024-01-15''" emptyRepo False None]
    by blast
qed

text \<open>
  C9, as the code has it. When \<open>package.json\<close> cannot be read or parsed and no
  version option is given, the version is the default \<open>1.0.0\<close>.
\<close>

theorem missing_manifest_defaults:
  assumes "pkg = Unreadable \<or> pkg = Malformed"
  shows "detectVersion pkg = Some ''1.0.0'' \<and>
         constructorVersion None pkg = Some ''1.0.0'' \<and>
         constructorVersion (Some []) pkg = Some ''1.0.0''"
  using assms by (auto simp: detectVersion_def constructorVersion_def)

theorem missing_manifest_defaults_witness:
  "detectVersion Unreadable = Some ''1.0.0'' \<and>
   constructorVersion None Unreadable = Some ''1.0.0'' \<and>
   constructorVersion (Some []) Unreadable = Some ''1.0.0''"
proof -
  have a: "Unreadable = Unreadable \<or> Unreadable = Malformed" by simp
  show ?thesis
    using missing_manifest_defaults [OF a] .
qed

text \<open>
  C9 as the claim states it fails: without a readable \<open>package.json\<close> and without a
  version option the run does not fail; it writes a changelog for the version \<open>1.0.0\<close>.
\<close>

theorem missing_manifest_counterexample:
  "packageJson noManifest = Unreadable \<and>
   generate False None ''2024-01-15'' noManifest =
     Written (''# Changelog\<newline>\<newline>## [1.0.0] - 2024-01-15\<newline>\<newline>### Features\<newline>\<newline>'' @
              ''- add x ([abc1234](../../commit/abc1234))\<newline>\<newline>\<newline>'') \<and>
   generate False None ''2024-01-15'' noManifest \<noteq> WriteError"
  by code_simp

end
